theory Spec2Isabelle
  imports Complex_Main
begin

section \<open>The environment: PDF sources on disk\<close>

text \<open>
  \<^verbatim>\<open>pdf_merger.py\<close> reads its inputs through PyPDF2 and the file system. A run is
  modelled against a fixed file system: a function from paths to what PyPDF2 finds there.
  A path either cannot be read as a PDF at all (\<^verbatim>\<open>open\<close> or \<^verbatim>\<open>PdfReader\<close> raises, or
  the page tree cannot be read, so that \<^verbatim>\<open>len(reader.pages)\<close> raises and iterating
  \<^verbatim>\<open>reader.pages\<close> raises before it yields a page), or it holds a sequence of pages.
  \<^verbatim>\<open>len(reader.pages)\<close> is the length of that sequence, and iterating \<^verbatim>\<open>reader.pages\<close>
  walks the indices \<^verbatim>\<open>0 .. len - 1\<close> in order. A single page may still fail when it is
  reached: fetching it may raise (\<open>Unfetchable\<close>), or \<^verbatim>\<open>page.merge_page\<close> may raise
  on its content (\<open>Unmergeable\<close>). The sources are not modified during a run.
\<close>

type_synonym path = string

type_synonym content = string

datatype src_page = Page content | Unfetchable | Unmergeable content

datatype pdf_file = Unreadable | Readable "src_page list"

type_synonym file_system = "path \<Rightarrow> pdf_file"

text \<open>
  The calls of \<^verbatim>\<open>logger.error\<close>, in the order they are made. The \<^verbatim>\<open>logger.info\<close> lines and
  the message boxes are not modelled.
\<close>

datatype event =
    PageCountError path
  | MainPdfError
  | TrialPdfError string
  | WriteError

section \<open>Phase 1: the total page count\<close>

text \<open>
  \<^verbatim>\<open>get_page_count\<close>: the page count, or \<open>0\<close> and a logged error when anything raises.
\<close>

definition get_page_count :: "file_system \<Rightarrow> path \<Rightarrow> int \<times> event list" where
  "get_page_count fs pdf_path =
     (case fs pdf_path of
        Readable ps \<Rightarrow> (int (length ps), [])
      | Unreadable \<Rightarrow> (0, [PageCountError pdf_path]))"

text \<open>The \<^verbatim>\<open>for pdf_path in trial_pdfs\<close> loop of \<^verbatim>\<open>calculate_total_pages\<close>.\<close>

fun count_trials :: "file_system \<Rightarrow> path list \<Rightarrow> int \<times> event list \<Rightarrow> int \<times> event list" where
  "count_trials fs [] acc = acc"
| "count_trials fs (pdf_path # rest) (tot, es) =
     (case get_page_count fs pdf_path of
        (trial_pages, es') \<Rightarrow> count_trials fs rest (tot + (trial_pages + 1), es @ es'))"

definition calculate_total_pages :: "file_system \<Rightarrow> path \<Rightarrow> path list \<Rightarrow> int \<times> event list" where
  "calculate_total_pages fs main_pdf trial_pdfs =
     (case get_page_count fs main_pdf of
        (main_pages, es) \<Rightarrow> count_trials fs trial_pdfs (main_pages, es))"

section \<open>Trial titles: \<^verbatim>\<open>os.path.basename\<close> and \<^verbatim>\<open>os.path.splitext\<close>\<close>

text \<open>
  The standard library's POSIX variants (\<^verbatim>\<open>posixpath\<close>, \<^verbatim>\<open>genericpath._splitext\<close> with
  separator \<^verbatim>\<open>/\<close>, no alternative separator and extension separator \<^verbatim>\<open>.\<close>).
  \<^verbatim>\<open>str.rfind\<close> gives the highest index of a character, or \<open>-1\<close>.
\<close>

fun rfind :: "char \<Rightarrow> string \<Rightarrow> int" where
  "rfind c [] = - 1"
| "rfind c (x # xs) =
     (let r = rfind c xs in if 0 \<le> r then r + 1 else if x = c then 0 else - 1)"

definition basename :: "path \<Rightarrow> string" where
  "basename p = drop (nat (rfind CHR ''/'' p + 1)) p"

definition splitext :: "path \<Rightarrow> string \<times> string" where
  "splitext p =
     (let sepIndex = rfind CHR ''/'' p;
          dotIndex = rfind CHR ''.'' p
      in if dotIndex > sepIndex \<and>
            list_ex (\<lambda>ch. ch \<noteq> CHR ''.'')
              (take (nat (dotIndex - (sepIndex + 1))) (drop (nat (sepIndex + 1)) p))
         then (take (nat dotIndex) p, drop (nat dotIndex) p)
         else (p, []))"

text \<open>\<^verbatim>\<open>title = os.path.splitext(os.path.basename(pdf_path))[0]\<close>\<close>

definition trial_title :: "path \<Rightarrow> string" where
  "trial_title pdf_path = fst (splitext (basename pdf_path))"

section \<open>The renderers\<close>

text \<open>
  A reportlab canvas is modelled by its graphics state (font, fill colour, stroke colour)
  and the marks painted so far, each mark with the attributes it was painted with.
  Lengths are in points and modelled as real numbers (rounding of Python's floats is not
  modelled). \<^verbatim>\<open>letter\<close> and \<^verbatim>\<open>inch\<close> are reportlab's constants; \<^verbatim>\<open>stringWidth\<close> depends
  on reportlab's font metrics and is a parameter \<open>sw\<close> of the renderers. A new canvas has
  font Helvetica 12 and black fill and stroke colours.
\<close>

type_synonym rgb = "real \<times> real \<times> real"

datatype mark =
    Rect real real real real "rgb option" "rgb option"
  | Text real real string string real rgb
  | Line real real real real rgb

record canvas =
  font_name :: string
  font_size :: real
  fill_color :: rgb
  stroke_color :: rgb
  marks :: "mark list"

definition letter :: "real \<times> real" where
  "letter = (612, 792)"

definition inch :: real where
  "inch = 72"

definition new_canvas :: canvas where
  "new_canvas =
     \<lparr>font_name = ''Helvetica'', font_size = 12, fill_color = (0, 0, 0),
      stroke_color = (0, 0, 0), marks = []\<rparr>"

definition setFillColorRGB :: "real \<Rightarrow> real \<Rightarrow> real \<Rightarrow> canvas \<Rightarrow> canvas" where
  "setFillColorRGB r g b c = c\<lparr>fill_color := (r, g, b)\<rparr>"

definition setStrokeColorRGB :: "real \<Rightarrow> real \<Rightarrow> real \<Rightarrow> canvas \<Rightarrow> canvas" where
  "setStrokeColorRGB r g b c = c\<lparr>stroke_color := (r, g, b)\<rparr>"

definition setFont :: "string \<Rightarrow> real \<Rightarrow> canvas \<Rightarrow> canvas" where
  "setFont psfontname sz c = c\<lparr>font_name := psfontname, font_size := sz\<rparr>"

definition rect :: "real \<Rightarrow> real \<Rightarrow> real \<Rightarrow> real \<Rightarrow> bool \<Rightarrow> bool \<Rightarrow> canvas \<Rightarrow> canvas" where
  "rect x y width height fill stroke c =
     c\<lparr>marks := marks c @
        [Rect x y width height
           (if fill then Some (fill_color c) else None)
           (if stroke then Some (stroke_color c) else None)]\<rparr>"

definition drawString :: "real \<Rightarrow> real \<Rightarrow> string \<Rightarrow> canvas \<Rightarrow> canvas" where
  "drawString x y txt c =
     c\<lparr>marks := marks c @ [Text x y txt (font_name c) (font_size c) (fill_color c)]\<rparr>"

definition line :: "real \<Rightarrow> real \<Rightarrow> real \<Rightarrow> real \<Rightarrow> canvas \<Rightarrow> canvas" where
  "line x1 y1 x2 y2 c = c\<lparr>marks := marks c @ [Line x1 y1 x2 y2 (stroke_color c)]\<rparr>"

text \<open>Python's \<^verbatim>\<open>str\<close> of an integer, as the f-string \<^verbatim>\<open>f"Page {page_num} of {total_pages}"\<close> uses it.\<close>

fun digits :: "nat \<Rightarrow> string" where
  "digits n =
     (if n < 10 then [''0123456789'' ! n]
      else digits (n div 10) @ [''0123456789'' ! (n mod 10)])"

definition str :: "int \<Rightarrow> string" where
  "str i = (if i < 0 then CHR ''-'' # digits (nat (- i)) else digits (nat i))"

definition create_page_number_overlay ::
  "(string \<Rightarrow> string \<Rightarrow> real \<Rightarrow> real) \<Rightarrow> int \<Rightarrow> int \<Rightarrow> string \<Rightarrow> mark list" where
  "create_page_number_overlay sw page_num total_pages report_title =
     (let c = new_canvas;
          (w, h) = letter;
          c = setFillColorRGB 1 1 1 c;
          c = rect 0 0 w (0.7 * inch) True False c;
          c = setFont ''Helvetica'' 10 c;
          c = setFillColorRGB 0 0 0 c;
          c = (if report_title \<noteq> [] then drawString (0.5 * inch) (0.25 * inch) report_title c
               else c);
          page_text = ''Page '' @ str page_num @ '' of '' @ str total_pages;
          text_width = sw page_text ''Helvetica'' 10;
          c = drawString ((w - text_width) / 2) (0.25 * inch) page_text c;
          c = setStrokeColorRGB 0.5 0.5 0.5 c;
          c = line (0.5 * inch) (0.5 * inch) (w - 0.5 * inch) (0.5 * inch) c
      in marks c)"

definition create_cover_page ::
  "(string \<Rightarrow> string \<Rightarrow> real \<Rightarrow> real) \<Rightarrow> string \<Rightarrow> int \<Rightarrow> int \<Rightarrow> string \<Rightarrow> mark list" where
  "create_cover_page sw title page_num total_pages report_title =
     (let c = new_canvas;
          (w, h) = letter;
          c = setFont ''Helvetica-Bold'' 24 c;
          title_width = sw title ''Helvetica-Bold'' 24;
          c = drawString ((w - title_width) / 2) (h / 2) title c;
          c = setFillColorRGB 1 1 1 c;
          c = rect 0 0 w (0.7 * inch) True False c;
          c = setFont ''Helvetica'' 10 c;
          c = setFillColorRGB 0 0 0 c;
          c = (if report_title \<noteq> [] then drawString (0.5 * inch) (0.25 * inch) report_title c
               else c);
          page_text = ''Page '' @ str page_num @ '' of '' @ str total_pages;
          text_width = sw page_text ''Helvetica'' 10;
          c = drawString ((w - text_width) / 2) (0.25 * inch) page_text c;
          c = setStrokeColorRGB 0.5 0.5 0.5 c;
          c = line (0.5 * inch) (0.5 * inch) (w - 0.5 * inch) (0.5 * inch) c
      in marks c)"

text \<open>
  The footer as the specification words it (the four steps of its overlay renderer): a
  white band of the full page width and 0.7 inch height at the bottom, the report title
  at (0.5 inch, 0.25 inch) when it is not empty, the text \<^verbatim>\<open>Page N of Total\<close> centred at
  height 0.25 inch, and a grey line at height 0.5 inch from 0.5 inch to 0.5 inch before the
  right edge; text in Helvetica 10, black.
\<close>

definition footer_band ::
  "(string \<Rightarrow> string \<Rightarrow> real \<Rightarrow> real) \<Rightarrow> int \<Rightarrow> int \<Rightarrow> string \<Rightarrow> mark list" where
  "footer_band sw page_num tp rt =
     [Rect 0 0 612 (0.7 * 72) (Some (1, 1, 1)) None] @
     (if rt = [] then [] else [Text (0.5 * 72) (0.25 * 72) rt ''Helvetica'' 10 (0, 0, 0)]) @
     [Text ((612 - sw (''Page '' @ str page_num @ '' of '' @ str tp) ''Helvetica'' 10) / 2)
        (0.25 * 72) (''Page '' @ str page_num @ '' of '' @ str tp) ''Helvetica'' 10 (0, 0, 0),
      Line (0.5 * 72) (0.5 * 72) (612 - 0.5 * 72) (0.5 * 72) (0.5, 0.5, 0.5)]"

section \<open>Phases 2 and 3: \<^verbatim>\<open>create_final_report\<close>\<close>

text \<open>
  The arguments \<^verbatim>\<open>(page_num, total_pages, report_title)\<close> of a renderer call. A stamp is
  determined by these arguments, so a page of the output is recorded with the arguments of
  the call that stamped it: a source page merged with its overlay, or a cover page with its
  title. An absent report title (\<^verbatim>\<open>None\<close>) and the empty one behave alike and are both
  the empty string.
\<close>

record footer_spec =
  page_number :: int
  total_pages :: int
  report_title :: string

datatype out_page = Stamped content footer_spec | Cover string footer_spec

text \<open>
  The state the function threads through its loops: the pages of the \<^verbatim>\<open>PdfWriter\<close> in the
  order of \<^verbatim>\<open>add_page\<close>, the counter \<^verbatim>\<open>current_page\<close>, and the errors logged so far.
  \<open>rendered\<close> is a ghost field: the arguments of every renderer call made so far, also of a
  call whose stamp never reaches the writer.
\<close>

record assembly =
  writer :: "out_page list"
  current_page :: int
  rendered :: "footer_spec list"
  reported :: "event list"

text \<open>
  The body shared by both page loops
  (\<^verbatim>\<open>for _, page in enumerate(reader.pages): overlay = ...; page.merge_page(...);
  writer.add_page(page); current_page += 1\<close>). The flag is \<open>False\<close> when an exception
  leaves the loop.
\<close>

fun stamp_pages :: "int \<Rightarrow> string \<Rightarrow> src_page list \<Rightarrow> assembly \<Rightarrow> assembly \<times> bool" where
  "stamp_pages tp rt [] st = (st, True)"
| "stamp_pages tp rt (Unfetchable # ps) st = (st, False)"
| "stamp_pages tp rt (Unmergeable c # ps) st =
     (st\<lparr>rendered := rendered st @
          [\<lparr>page_number = current_page st, total_pages = tp, report_title = rt\<rparr>]\<rparr>,
      False)"
| "stamp_pages tp rt (Page c # ps) st =
     (let overlay = \<lparr>page_number = current_page st, total_pages = tp, report_title = rt\<rparr>
      in stamp_pages tp rt ps
           (st\<lparr>rendered := rendered st @ [overlay],
               writer := writer st @ [Stamped c overlay],
               current_page := current_page st + 1\<rparr>))"

text \<open>\<^verbatim>\<open>reader = PdfReader(path)\<close> followed by the page loop, inside a \<^verbatim>\<open>try\<close>.\<close>

definition read_and_stamp ::
  "file_system \<Rightarrow> int \<Rightarrow> string \<Rightarrow> path \<Rightarrow> assembly \<Rightarrow> assembly \<times> bool" where
  "read_and_stamp fs tp rt pdf_path st =
     (case fs pdf_path of
        Unreadable \<Rightarrow> (st, False)
      | Readable ps \<Rightarrow> stamp_pages tp rt ps st)"

text \<open>The main document: an exception is logged and ends the run (flag \<open>False\<close>).\<close>

definition process_main ::
  "file_system \<Rightarrow> int \<Rightarrow> string \<Rightarrow> path \<Rightarrow> assembly \<Rightarrow> assembly \<times> bool" where
  "process_main fs tp rt main_pdf st =
     (case read_and_stamp fs tp rt main_pdf st of
        (st', ok) \<Rightarrow>
          if ok then (st', True)
          else (st'\<lparr>reported := reported st' @ [MainPdfError]\<rparr>, False))"

text \<open>
  One iteration of the trial loop: the cover is rendered and appended, the counter is
  incremented, then the trial is read and stamped; an exception is logged and the loop
  goes on with the state as the exception left it.
\<close>

definition process_trial ::
  "file_system \<Rightarrow> int \<Rightarrow> string \<Rightarrow> path \<Rightarrow> assembly \<Rightarrow> assembly" where
  "process_trial fs tp rt pdf_path st =
     (let title = trial_title pdf_path;
          cover_page = \<lparr>page_number = current_page st, total_pages = tp, report_title = rt\<rparr>;
          st = st\<lparr>rendered := rendered st @ [cover_page],
                  writer := writer st @ [Cover title cover_page],
                  current_page := current_page st + 1\<rparr>
      in case read_and_stamp fs tp rt pdf_path st of
           (st', ok) \<Rightarrow>
             if ok then st'
             else st'\<lparr>reported := reported st' @ [TrialPdfError title]\<rparr>)"

fun process_trials ::
  "file_system \<Rightarrow> int \<Rightarrow> string \<Rightarrow> path list \<Rightarrow> assembly \<Rightarrow> assembly" where
  "process_trials fs tp rt [] st = st"
| "process_trials fs tp rt (pdf_path # rest) st =
     process_trials fs tp rt rest (process_trial fs tp rt pdf_path st)"

text \<open>
  Writing the output. What \<^verbatim>\<open>open(output_path, "wb")\<close> and \<^verbatim>\<open>writer.write(f)\<close> do at a path
  is given by the environment: both succeed, \<^verbatim>\<open>open\<close> raises (the destination is not
  touched), or \<^verbatim>\<open>write\<close> raises after the file was opened for writing (a truncated or
  partly written file is left).
\<close>

datatype write_outcome = WriteSucceeds | OpenFails | WriteFails

datatype dest_state = Untouched | Partial | Written "out_page list"

text \<open>
  What a run leaves behind: the value returned (\<^verbatim>\<open>output_path\<close>, or \<open>None\<close>), the state of
  the destination, the total computed in Phase 1, and the state of the assembly when the
  function returned.
\<close>

record outcome =
  returned :: "path option"
  destination :: dest_state
  computed_total :: int
  final :: assembly

definition write_final ::
  "(path \<Rightarrow> write_outcome) \<Rightarrow> path \<Rightarrow> int \<Rightarrow> assembly \<Rightarrow> outcome" where
  "write_final dst output_path tp st =
     (case dst output_path of
        WriteSucceeds \<Rightarrow>
          \<lparr>returned = Some output_path, destination = Written (writer st),
           computed_total = tp, final = st\<rparr>
      | OpenFails \<Rightarrow>
          \<lparr>returned = None, destination = Untouched,
           computed_total = tp, final = st\<lparr>reported := reported st @ [WriteError]\<rparr>\<rparr>
      | WriteFails \<Rightarrow>
          \<lparr>returned = None, destination = Partial,
           computed_total = tp, final = st\<lparr>reported := reported st @ [WriteError]\<rparr>\<rparr>)"

definition create_final_report ::
  "file_system \<Rightarrow> (path \<Rightarrow> write_outcome) \<Rightarrow> path \<Rightarrow> path list \<Rightarrow> path \<Rightarrow> string \<Rightarrow> outcome" where
  "create_final_report fs dst main_pdf trial_pdfs output_path rt =
     (case calculate_total_pages fs main_pdf trial_pdfs of
        (tp, es) \<Rightarrow>
          (let st = \<lparr>writer = [], current_page = 1, rendered = [], reported = es\<rparr>
           in case process_main fs tp rt main_pdf st of
                (st, ok) \<Rightarrow>
                  if \<not> ok
                  then \<lparr>returned = None, destination = Untouched, computed_total = tp, final = st\<rparr>
                  else write_final dst output_path tp (process_trials fs tp rt trial_pdfs st)))"

text \<open>The page number stamped on a page of the output, and the page without its stamp.\<close>

fun spec_of :: "out_page \<Rightarrow> footer_spec" where
  "spec_of (Stamped c s) = s"
| "spec_of (Cover t s) = s"

datatype slot = Body content | CoverOf string

fun slot_of :: "out_page \<Rightarrow> slot" where
  "slot_of (Stamped c s) = Body c"
| "slot_of (Cover t s) = CoverOf t"

text \<open>
  What a source contributes to the output: the contents of its pages up to the first one
  that fails (\<open>stampable\<close>), and whether reading it raises at all (\<open>fails\<close>). A source
  is sound when it opens and every page of it is fetched and merged.
\<close>

fun stampable :: "src_page list \<Rightarrow> content list" where
  "stampable (Page c # ps) = c # stampable ps"
| "stampable ps = []"

fun fails :: "src_page list \<Rightarrow> bool" where
  "fails [] = False"
| "fails (Page c # ps) = fails ps"
| "fails ps = True"

definition sound :: "pdf_file \<Rightarrow> bool" where
  "sound f = (case f of Unreadable \<Rightarrow> False | Readable ps \<Rightarrow> \<not> fails ps)"

definition body :: "pdf_file \<Rightarrow> content list" where
  "body f = (case f of Unreadable \<Rightarrow> [] | Readable ps \<Rightarrow> stampable ps)"

text \<open>Source pages stamped with consecutive numbers from \<open>n\<close> on.\<close>

fun numbered :: "int \<Rightarrow> int \<Rightarrow> string \<Rightarrow> content list \<Rightarrow> out_page list" where
  "numbered n tp rt [] = []"
| "numbered n tp rt (c # cs) =
     Stamped c \<lparr>page_number = n, total_pages = tp, report_title = rt\<rparr> # numbered (n + 1) tp rt cs"

text \<open>The counter is one more than the number of pages appended to the writer.\<close>

definition counter_ok :: "assembly \<Rightarrow> bool" where
  "counter_ok st = (current_page st = 1 + int (length (writer st)))"

text \<open>
  \<^verbatim>\<open>process_files\<close> presents a run as a success (the dialog "PDF successfully created")
  under the condition \<^verbatim>\<open>result and HAS_GUI\<close>; a string is true when it is not empty.
\<close>

definition success_dialog :: "bool \<Rightarrow> outcome \<Rightarrow> bool" where
  "success_dialog has_gui r =
     ((case returned r of None \<Rightarrow> False | Some p \<Rightarrow> p \<noteq> []) \<and> has_gui)"

text \<open>The footer arguments of page \<open>n\<close> in a run with total \<open>tp\<close> and report title \<open>rt\<close>.\<close>

definition footer :: "int \<Rightarrow> string \<Rightarrow> int \<Rightarrow> footer_spec" where
  "footer tp rt n = \<lparr>page_number = n, total_pages = tp, report_title = rt\<rparr>"

text \<open>
  The pages in the writer carry the numbers \<open>1, 2, ...\<close> in order, up to the page before
  \<open>current_page\<close>, all with the same total and report title.
\<close>

definition numbered_ok :: "int \<Rightarrow> string \<Rightarrow> assembly \<Rightarrow> bool" where
  "numbered_ok tp rt st =
     (1 \<le> current_page st \<and>
      map spec_of (writer st) = map (footer tp rt) [1..current_page st - 1])"

section \<open>A concrete environment\<close>

text \<open>
  A two-page main report, an unreadable trial, a one-page trial, and a trial whose second
  page cannot be merged; one writable destination, one that cannot be opened, and
  destinations where writing breaks off.
\<close>

definition example_fs :: file_system where
  "example_fs p =
     (if p = ''/r/main.pdf'' then Readable [Page ''m1'', Page ''m2'']
      else if p = ''/r/t1.pdf'' then Unreadable
      else if p = ''/r/t2.pdf'' then Readable [Page ''a'']
      else if p = ''/r/t3.v2.pdf'' then Readable [Page ''b'', Unmergeable ''c'', Page ''d'']
      else Unreadable)"

definition example_dst :: "path \<Rightarrow> write_outcome" where
  "example_dst p =
     (if p = ''/r/out.pdf'' then WriteSucceeds
      else if p = ''/ro/out.pdf'' then OpenFails
      else WriteFails)"

section \<open>Phase 1: properties\<close>

lemma count_trials_total:
  "fst (count_trials fs ts (tot, es)) =
     tot + (\<Sum>t\<leftarrow>ts. fst (get_page_count fs t) + 1)"
proof (induction ts arbitrary: tot es)
  case Nil
  show ?case by simp
next
  case (Cons t ts)
  obtain n es' where g: "get_page_count fs t = (n, es')"
    by (cases "get_page_count fs t")
  show ?case
    using Cons.IH [of "tot + (n + 1)" "es @ es'"] g by simp
qed

lemma fst_get_page_count:
  "fst (get_page_count fs p) =
     (case fs p of Readable ps \<Rightarrow> int (length ps) | Unreadable \<Rightarrow> 0)"
  by (simp add: get_page_count_def split: pdf_file.split)

lemma total_as_sum:
  "fst (calculate_total_pages fs main_pdf trial_pdfs) =
     fst (get_page_count fs main_pdf) + (\<Sum>t\<leftarrow>trial_pdfs. fst (get_page_count fs t) + 1)"
proof -
  obtain m es where g: "get_page_count fs main_pdf = (m, es)"
    by (cases "get_page_count fs main_pdf")
  show ?thesis
    using count_trials_total [of fs trial_pdfs m es] g
    by (simp add: calculate_total_pages_def)
qed

section \<open>Phase 2: the page loops\<close>

lemma numbered_numbers:
  "map (page_number \<circ> spec_of) (numbered n tp rt cs) = [n..n + int (length cs) - 1]"
proof (induction cs arbitrary: n)
  case Nil
  show ?case by simp
next
  case (Cons c cs)
  have "[n..n + int (length (c # cs)) - 1] = n # [n + 1..n + 1 + int (length cs) - 1]"
    by (subst upto_rec1) (simp_all add: add.commute add.left_commute)
  then show ?case using Cons.IH [of "n + 1"] by simp
qed

lemma numbered_slots: "map slot_of (numbered n tp rt cs) = map Body cs"
  by (induction cs arbitrary: n) simp_all

lemma numbered_length: "length (numbered n tp rt cs) = length cs"
  by (induction cs arbitrary: n) simp_all

lemma numbered_totals:
  "s \<in> spec_of ` set (numbered n tp rt cs) \<Longrightarrow> total_pages s = tp \<and> report_title s = rt"
  by (induction cs arbitrary: n) auto

lemma stamp_pages_ok: "snd (stamp_pages tp rt ps st) = (\<not> fails ps)"
  by (induction tp rt ps st rule: stamp_pages.induct) (simp_all add: Let_def)

lemma stamp_pages_writer:
  "writer (fst (stamp_pages tp rt ps st)) =
     writer st @ numbered (current_page st) tp rt (stampable ps)"
  by (induction tp rt ps st rule: stamp_pages.induct) (simp_all add: Let_def)

lemma stamp_pages_counter:
  "current_page (fst (stamp_pages tp rt ps st)) =
     current_page st + int (length (stampable ps))"
  by (induction tp rt ps st rule: stamp_pages.induct) (simp_all add: Let_def)

lemma stamp_pages_reported:
  "reported (fst (stamp_pages tp rt ps st)) = reported st"
  by (induction tp rt ps st rule: stamp_pages.induct) (simp_all add: Let_def)

lemma stampable_length: "length (stampable ps) \<le> length ps"
  by (induction ps rule: stampable.induct) simp_all

lemma stampable_sound: "\<not> fails ps \<Longrightarrow> length (stampable ps) = length ps"
  by (induction ps rule: fails.induct) simp_all

lemma stamp_pages_rendered:
  "s \<in> set (rendered (fst (stamp_pages tp rt ps st))) \<Longrightarrow>
     s \<in> set (rendered st) \<or>
     (current_page st \<le> page_number s \<and> page_number s < current_page st + int (length ps) \<and>
      total_pages s = tp)"
proof (induction tp rt ps st rule: stamp_pages.induct)
  case (4 tp rt c ps st)
  then show ?case by (fastforce simp: Let_def)
qed auto

lemma stamp_pages_rendered_sound:
  "\<not> fails ps \<Longrightarrow> rendered (fst (stamp_pages tp rt ps st)) =
     rendered st @ map spec_of (numbered (current_page st) tp rt (stampable ps))"
  by (induction tp rt ps st rule: stamp_pages.induct) (simp_all add: Let_def)

lemma numbered_specs:
  "map spec_of (numbered n tp rt cs) = map (footer tp rt) [n..n + int (length cs) - 1]"
proof (induction cs arbitrary: n)
  case Nil
  show ?case by simp
next
  case (Cons c cs)
  have "[n..n + int (length (c # cs)) - 1] = n # [n + 1..n + 1 + int (length cs) - 1]"
    by (subst upto_rec1) (simp_all add: add.commute add.left_commute)
  then show ?case using Cons.IH [of "n + 1"] by (simp add: footer_def)
qed

lemma count_body: "int (length (body (fs p))) \<le> fst (get_page_count fs p)"
  by (simp add: body_def get_page_count_def stampable_length split: pdf_file.split)

lemma count_sound: "sound (fs p) \<Longrightarrow> fst (get_page_count fs p) = int (length (body (fs p)))"
  by (simp add: body_def sound_def get_page_count_def stampable_sound split: pdf_file.splits)

lemma count_nonneg: "0 \<le> fst (get_page_count fs p)"
  by (simp add: get_page_count_def split: pdf_file.split)

lemma read_and_stamp_ok: "snd (read_and_stamp fs tp rt p st) = sound (fs p)"
  by (simp add: read_and_stamp_def sound_def stamp_pages_ok split: pdf_file.split)

lemma read_and_stamp_writer:
  "writer (fst (read_and_stamp fs tp rt p st)) =
     writer st @ numbered (current_page st) tp rt (body (fs p))"
  by (simp add: read_and_stamp_def body_def stamp_pages_writer split: pdf_file.split)

lemma read_and_stamp_counter:
  "current_page (fst (read_and_stamp fs tp rt p st)) =
     current_page st + int (length (body (fs p)))"
  by (simp add: read_and_stamp_def body_def stamp_pages_counter split: pdf_file.split)

lemma read_and_stamp_reported:
  "reported (fst (read_and_stamp fs tp rt p st)) = reported st"
  by (simp add: read_and_stamp_def stamp_pages_reported split: pdf_file.split)

lemma read_and_stamp_rendered:
  assumes "s \<in> set (rendered (fst (read_and_stamp fs tp rt p st)))"
  shows "s \<in> set (rendered st) \<or>
     (current_page st \<le> page_number s \<and>
      page_number s < current_page st + fst (get_page_count fs p) \<and> total_pages s = tp)"
proof (cases "fs p")
  case Unreadable
  with assms show ?thesis by (simp add: read_and_stamp_def)
next
  case (Readable ps)
  with assms have "s \<in> set (rendered (fst (stamp_pages tp rt ps st)))"
    by (simp add: read_and_stamp_def)
  from stamp_pages_rendered [OF this] Readable show ?thesis
    by (simp add: get_page_count_def)
qed

lemma process_trial_unfold:
  "process_trial fs tp rt p st =
     (let st1 = st\<lparr>rendered := rendered st @ [footer tp rt (current_page st)],
                    writer := writer st @ [Cover (trial_title p) (footer tp rt (current_page st))],
                    current_page := current_page st + 1\<rparr>;
          st2 = fst (read_and_stamp fs tp rt p st1)
      in if sound (fs p) then st2
         else st2\<lparr>reported := reported st2 @ [TrialPdfError (trial_title p)]\<rparr>)"
  by (simp add: process_trial_def Let_def footer_def split_beta read_and_stamp_ok)

lemma process_trial_writer:
  "writer (process_trial fs tp rt p st) =
     writer st @ Cover (trial_title p) (footer tp rt (current_page st)) #
       numbered (current_page st + 1) tp rt (body (fs p))"
  by (simp add: process_trial_unfold Let_def read_and_stamp_writer)

lemma process_trial_counter:
  "current_page (process_trial fs tp rt p st) =
     current_page st + 1 + int (length (body (fs p)))"
  by (simp add: process_trial_unfold Let_def read_and_stamp_counter)

lemma process_trial_reported:
  "reported (process_trial fs tp rt p st) =
     reported st @ (if sound (fs p) then [] else [TrialPdfError (trial_title p)])"
  by (simp add: process_trial_unfold Let_def read_and_stamp_reported)

lemma process_trial_rendered:
  assumes "s \<in> set (rendered (process_trial fs tp rt p st))"
  shows "s \<in> set (rendered st) \<or>
     (current_page st \<le> page_number s \<and>
      page_number s \<le> current_page st + fst (get_page_count fs p) \<and> total_pages s = tp)"
proof -
  define st1 where "st1 = st\<lparr>rendered := rendered st @ [footer tp rt (current_page st)],
                    writer := writer st @ [Cover (trial_title p) (footer tp rt (current_page st))],
                    current_page := current_page st + 1\<rparr>"
  from assms have "s \<in> set (rendered (fst (read_and_stamp fs tp rt p st1)))"
    by (simp add: process_trial_unfold Let_def st1_def split: if_splits)
  from read_and_stamp_rendered [OF this] show ?thesis
    using count_nonneg [of fs p] by (auto simp: st1_def footer_def)
qed

lemma upto_snoc_block:
  "1 \<le> n \<Longrightarrow> 0 \<le> k \<Longrightarrow> [1..n - 1] @ [n..n + k - 1] = [1..n + k - 1]"
  using upto_split1 [of 1 n "n + k - 1"]
  by (cases "k = 0") simp_all

lemma numbered_ok_counter:
  assumes "numbered_ok tp rt st"
  shows "counter_ok st"
proof -
  have "length (map spec_of (writer st)) = length (map (footer tp rt) [1..current_page st - 1])"
    using assms by (simp only: numbered_ok_def)
  then have "length (writer st) = nat (current_page st - 1)"
    by simp
  moreover have "1 \<le> current_page st"
    using assms by (simp add: numbered_ok_def)
  ultimately show ?thesis
    by (simp add: counter_ok_def)
qed

lemma read_and_stamp_numbered_ok:
  assumes "numbered_ok tp rt st"
  shows "numbered_ok tp rt (fst (read_and_stamp fs tp rt p st))"
proof -
  let ?n = "current_page st" and ?k = "int (length (body (fs p)))"
  have n: "1 \<le> ?n" and w: "map spec_of (writer st) = map (footer tp rt) [1..?n - 1]"
    using assms by (simp_all add: numbered_ok_def)
  have "map spec_of (writer st @ numbered ?n tp rt (body (fs p))) =
      map (footer tp rt) ([1..?n - 1] @ [?n..?n + ?k - 1])"
    by (simp add: w numbered_specs)
  also have "\<dots> = map (footer tp rt) [1..?n + ?k - 1]"
    using n by (simp only: upto_snoc_block of_nat_0_le_iff)
  finally show ?thesis
    using n by (simp add: numbered_ok_def read_and_stamp_writer read_and_stamp_counter)
qed

lemma process_trial_numbered_ok:
  assumes "numbered_ok tp rt st"
  shows "numbered_ok tp rt (process_trial fs tp rt p st)"
proof -
  let ?n = "current_page st" and ?k = "int (length (body (fs p)))"
  have "[1..?n - 1] @ ?n # [?n + 1..?n + 1 + ?k - 1] = [1..?n + 1 + ?k - 1]"
    using assms upto_snoc_block [of ?n "1 + ?k"] upto_rec1 [of ?n "?n + ?k"]
    by (simp add: numbered_ok_def add.assoc)
  then have "map (footer tp rt) [1..?n - 1] @ footer tp rt ?n # map (footer tp rt) [?n + 1..?n + 1 + ?k - 1]
      = map (footer tp rt) [1..?n + 1 + ?k - 1]"
    by (simp flip: map_append list.map(2))
  with assms show ?thesis
    by (simp add: numbered_ok_def process_trial_writer process_trial_counter numbered_specs)
qed

lemma process_trials_numbered_ok:
  "numbered_ok tp rt st \<Longrightarrow> numbered_ok tp rt (process_trials fs tp rt ts st)"
  by (induction ts arbitrary: st) (simp_all add: process_trial_numbered_ok)

lemma process_trials_slots:
  "map slot_of (writer (process_trials fs tp rt ts st)) =
     map slot_of (writer st) @
     concat (map (\<lambda>t. CoverOf (trial_title t) # map Body (body (fs t))) ts)"
  by (induction ts arbitrary: st) (simp_all add: process_trial_writer numbered_slots)

lemma process_trials_counter:
  "current_page (process_trials fs tp rt ts st) =
     current_page st + (\<Sum>t\<leftarrow>ts. int (length (body (fs t))) + 1)"
  by (induction ts arbitrary: st) (simp_all add: process_trial_counter)

lemma process_trials_reported:
  "reported (process_trials fs tp rt ts st) =
     reported st @
     concat (map (\<lambda>t. if sound (fs t) then [] else [TrialPdfError (trial_title t)]) ts)"
  by (induction ts arbitrary: st) (simp_all add: process_trial_reported)

lemma process_trials_rendered:
  "s \<in> set (rendered (process_trials fs tp rt ts st)) \<Longrightarrow>
     s \<in> set (rendered st) \<or>
     (current_page st \<le> page_number s \<and>
      page_number s < current_page st + (\<Sum>t\<leftarrow>ts. fst (get_page_count fs t) + 1) \<and>
      total_pages s = tp)"
proof (induction ts arbitrary: st)
  case Nil
  then show ?case by simp
next
  case (Cons t ts)
  let ?st1 = "process_trial fs tp rt t st"
  have sum0: "0 \<le> (\<Sum>t\<leftarrow>ts. fst (get_page_count fs t) + 1)"
    by (rule sum_list_nonneg) (auto simp: count_nonneg)
  have cp: "current_page st \<le> current_page ?st1"
    "current_page ?st1 \<le> current_page st + fst (get_page_count fs t) + 1"
    using count_body [of fs t] by (simp_all add: process_trial_counter)
  from Cons.prems have "s \<in> set (rendered (process_trials fs tp rt ts ?st1))" by simp
  from Cons.IH [OF this] show ?case
  proof
    assume "s \<in> set (rendered ?st1)"
    from process_trial_rendered [OF this] show ?thesis using sum0 by auto
  next
    assume "current_page ?st1 \<le> page_number s \<and>
      page_number s < current_page ?st1 + (\<Sum>t\<leftarrow>ts. fst (get_page_count fs t) + 1) \<and>
      total_pages s = tp"
    with cp show ?thesis by auto
  qed
qed

section \<open>Whole runs\<close>

lemma process_main_unfold:
  "process_main fs tp rt p st =
     (let st1 = fst (read_and_stamp fs tp rt p st)
      in if sound (fs p) then (st1, True)
         else (st1\<lparr>reported := reported st1 @ [MainPdfError]\<rparr>, False))"
  by (simp add: process_main_def Let_def split_beta read_and_stamp_ok)

lemma run_unfold:
  "create_final_report fs dst main_pdf trial_pdfs output_path rt =
     (let tp = fst (calculate_total_pages fs main_pdf trial_pdfs);
          st0 = \<lparr>writer = [], current_page = 1, rendered = [],
                 reported = snd (calculate_total_pages fs main_pdf trial_pdfs)\<rparr>;
          st1 = fst (read_and_stamp fs tp rt main_pdf st0)
      in if sound (fs main_pdf)
         then write_final dst output_path tp (process_trials fs tp rt trial_pdfs st1)
         else \<lparr>returned = None, destination = Untouched, computed_total = tp,
               final = st1\<lparr>reported := reported st1 @ [MainPdfError]\<rparr>\<rparr>)"
  by (simp add: create_final_report_def process_main_unfold Let_def split_beta)

lemma write_final_fields:
  "writer (final (write_final dst out tp st)) = writer st"
  "current_page (final (write_final dst out tp st)) = current_page st"
  "rendered (final (write_final dst out tp st)) = rendered st"
  "computed_total (write_final dst out tp st) = tp"
  by (simp_all add: write_final_def split: write_outcome.split)

lemmas run_defs = create_final_report_def calculate_total_pages_def get_page_count_def
  process_main_def process_trial_def read_and_stamp_def write_final_def example_fs_def
  example_dst_def trial_title_def basename_def splitext_def Let_def

lemma write_final_numbered_ok:
  "numbered_ok tp rt (final (write_final dst out tp' st)) = numbered_ok tp rt st"
  by (simp add: numbered_ok_def write_final_fields)

lemma run_total:
  "computed_total (create_final_report fs dst main_pdf trial_pdfs output_path rt) =
     fst (calculate_total_pages fs main_pdf trial_pdfs)"
  by (simp add: run_unfold Let_def write_final_fields)

lemma run_numbered_ok:
  "numbered_ok (fst (calculate_total_pages fs main_pdf trial_pdfs)) rt
     (final (create_final_report fs dst main_pdf trial_pdfs output_path rt))"
proof -
  let ?tp = "fst (calculate_total_pages fs main_pdf trial_pdfs)"
  let ?st0 = "\<lparr>writer = [], current_page = 1, rendered = [],
                 reported = snd (calculate_total_pages fs main_pdf trial_pdfs)\<rparr>"
  let ?st1 = "fst (read_and_stamp fs ?tp rt main_pdf ?st0)"
  have "numbered_ok ?tp rt ?st0"
    by (simp add: numbered_ok_def)
  then have st1: "numbered_ok ?tp rt ?st1"
    by (rule read_and_stamp_numbered_ok)
  show ?thesis
  proof (cases "sound (fs main_pdf)")
    case True
    then show ?thesis
      using process_trials_numbered_ok [OF st1, of fs trial_pdfs]
      by (simp add: run_unfold Let_def write_final_numbered_ok)
  next
    case False
    then show ?thesis
      using st1 by (simp add: run_unfold Let_def numbered_ok_def)
  qed
qed

lemma run_rendered:
  assumes "s \<in> set (rendered (final (create_final_report fs dst main_pdf trial_pdfs output_path rt)))"
  shows "1 \<le> page_number s \<and>
         page_number s \<le> fst (calculate_total_pages fs main_pdf trial_pdfs) \<and>
         total_pages s = fst (calculate_total_pages fs main_pdf trial_pdfs)"
proof -
  let ?tp = "fst (calculate_total_pages fs main_pdf trial_pdfs)"
  let ?m = "fst (get_page_count fs main_pdf)"
  let ?sum = "\<Sum>t\<leftarrow>trial_pdfs. fst (get_page_count fs t) + 1"
  let ?st0 = "\<lparr>writer = [], current_page = 1, rendered = [],
                 reported = snd (calculate_total_pages fs main_pdf trial_pdfs)\<rparr>"
  let ?st1 = "fst (read_and_stamp fs ?tp rt main_pdf ?st0)"
  have tp: "?tp = ?m + ?sum"
    by (rule total_as_sum)
  have sum0: "0 \<le> ?sum"
    by (rule sum_list_nonneg) (auto simp: count_nonneg)
  have main: "1 \<le> page_number x \<and> page_number x \<le> ?tp \<and> total_pages x = ?tp"
    if "x \<in> set (rendered ?st1)" for x
    using read_and_stamp_rendered [OF that] tp sum0 by auto
  have cp1: "current_page ?st1 \<le> 1 + ?m" "1 \<le> current_page ?st1"
    using count_body [of fs main_pdf] by (simp_all add: read_and_stamp_counter)
  show ?thesis
  proof (cases "sound (fs main_pdf)")
    case True
    with assms have "s \<in> set (rendered (process_trials fs ?tp rt trial_pdfs ?st1))"
      by (simp add: run_unfold Let_def write_final_fields)
    from process_trials_rendered [OF this] show ?thesis
    proof
      assume "s \<in> set (rendered ?st1)"
      then show ?thesis by (rule main)
    next
      assume "current_page ?st1 \<le> page_number s \<and>
        page_number s < current_page ?st1 + ?sum \<and> total_pages s = ?tp"
      with cp1 tp show ?thesis by auto
    qed
  next
    case False
    with assms have "s \<in> set (rendered ?st1)"
      by (simp add: run_unfold Let_def)
    then show ?thesis by (rule main)
  qed
qed

lemma stamp_pages_counter_ok:
  "counter_ok st \<Longrightarrow> counter_ok (fst (stamp_pages tp rt ps st))"
  by (simp add: counter_ok_def stamp_pages_writer stamp_pages_counter numbered_length)

lemma process_trial_counter_ok:
  "counter_ok st \<Longrightarrow> counter_ok (process_trial fs tp rt p st)"
  by (simp add: counter_ok_def process_trial_writer process_trial_counter numbered_length)

lemma process_trials_counter_ok:
  "counter_ok st \<Longrightarrow> counter_ok (process_trials fs tp rt ts st)"
  by (induction ts arbitrary: st) (simp_all add: process_trial_counter_ok)

lemma page_number_footer: "map (page_number \<circ> footer tp rt) ns = ns"
  by (induction ns) (simp_all add: footer_def)

lemma numbered_ok_numbers:
  assumes "numbered_ok tp rt st"
  shows "map (page_number \<circ> spec_of) (writer st) = [1..int (length (writer st))]"
proof -
  have "map page_number (map spec_of (writer st)) =
      map page_number (map (footer tp rt) [1..current_page st - 1])"
    using assms by (simp only: numbered_ok_def)
  then have "map (page_number \<circ> spec_of) (writer st) = [1..current_page st - 1]"
    by (simp add: page_number_footer)
  moreover have "current_page st - 1 = int (length (writer st))"
    using numbered_ok_counter [OF assms] by (simp add: counter_ok_def)
  ultimately show ?thesis by simp
qed

lemma sound_counts:
  "\<forall>t \<in> set ts. sound (fs t) \<Longrightarrow>
     (\<Sum>t\<leftarrow>ts. fst (get_page_count fs t) + 1) = (\<Sum>t\<leftarrow>ts. int (length (body (fs t))) + 1)"
  by (induction ts) (simp_all add: count_sound)

lemma run_slots:
  assumes "sound (fs main_pdf)"
  shows "map slot_of (writer (final (create_final_report fs dst main_pdf trial_pdfs output_path rt))) =
     map Body (body (fs main_pdf)) @
     concat (map (\<lambda>t. CoverOf (trial_title t) # map Body (body (fs t))) trial_pdfs)"
  using assms
  by (simp add: run_unfold Let_def write_final_fields process_trials_slots
      read_and_stamp_writer numbered_slots)

lemma run_counter:
  assumes "sound (fs main_pdf)"
  shows "current_page (final (create_final_report fs dst main_pdf trial_pdfs output_path rt)) =
     1 + int (length (body (fs main_pdf))) + (\<Sum>t\<leftarrow>trial_pdfs. int (length (body (fs t))) + 1)"
  using assms
  by (simp add: run_unfold Let_def write_final_fields process_trials_counter
      read_and_stamp_counter)

lemma sound_run_numbering:
  fixes fs dst main_pdf trial_pdfs output_path rt
  defines "r \<equiv> create_final_report fs dst main_pdf trial_pdfs output_path rt"
  assumes main: "sound (fs main_pdf)"
    and trials: "\<forall>t \<in> set trial_pdfs. sound (fs t)"
  shows "computed_total r = fst (calculate_total_pages fs main_pdf trial_pdfs) \<and>
         map (page_number \<circ> spec_of) (writer (final r)) = [1..computed_total r] \<and>
         map spec_of (writer (final r)) = map (footer (computed_total r) rt) [1..computed_total r] \<and>
         map slot_of (writer (final r)) =
           map Body (body (fs main_pdf)) @
           concat (map (\<lambda>t. CoverOf (trial_title t) # map Body (body (fs t))) trial_pdfs) \<and>
         int (length (writer (final r))) = computed_total r"
proof -
  let ?tp = "fst (calculate_total_pages fs main_pdf trial_pdfs)"
  have tot: "computed_total r = ?tp"
    unfolding r_def by (rule run_total)
  have ok: "numbered_ok ?tp rt (final r)"
    unfolding r_def by (rule run_numbered_ok)
  have "?tp = int (length (body (fs main_pdf))) + (\<Sum>t\<leftarrow>trial_pdfs. int (length (body (fs t))) + 1)"
    using total_as_sum [of fs main_pdf trial_pdfs] count_sound [of fs main_pdf] main sound_counts [OF trials]
    by simp
  then have cp: "current_page (final r) - 1 = ?tp"
    unfolding r_def using run_counter [of fs main_pdf dst trial_pdfs output_path rt] main by simp
  have specs: "map spec_of (writer (final r)) = map (footer ?tp rt) [1..?tp]"
    using ok cp by (simp add: numbered_ok_def)
  have len: "int (length (writer (final r))) = ?tp"
    using numbered_ok_counter [OF ok] cp by (simp add: counter_ok_def)
  have nums: "map (page_number \<circ> spec_of) (writer (final r)) = [1..?tp]"
    using numbered_ok_numbers [OF ok] len by simp
  have slots: "map slot_of (writer (final r)) =
           map Body (body (fs main_pdf)) @
           concat (map (\<lambda>t. CoverOf (trial_title t) # map Body (body (fs t))) trial_pdfs)"
    unfolding r_def using main by (rule run_slots)
  show ?thesis
    using tot specs len nums slots by simp
qed

section \<open>Paths: properties\<close>

lemma rfind_range: "- 1 \<le> rfind c s \<and> rfind c s < int (length s)"
  by (induction s) (auto simp: Let_def)

lemma rfind_absent: "c \<notin> set s \<Longrightarrow> rfind c s = - 1"
  by (induction s) (auto simp: Let_def)

lemma rfind_present: "c \<in> set s \<Longrightarrow> 0 \<le> rfind c s"
  by (induction s) (auto simp: Let_def)

lemma rfind_at: "0 \<le> rfind c s \<Longrightarrow> s ! nat (rfind c s) = c"
proof (induction s)
  case Nil
  then show ?case by simp
next
  case (Cons x xs)
  show ?case
  proof (cases "0 \<le> rfind c xs")
    case True
    then have "nat (rfind c xs + 1) = Suc (nat (rfind c xs))" by simp
    with True Cons.IH show ?thesis by (simp add: Let_def)
  next
    case False
    with Cons.prems show ?thesis by (simp add: Let_def split: if_splits)
  qed
qed

lemma rfind_after: "c \<notin> set (drop (nat (rfind c s + 1)) s)"
proof (induction s)
  case Nil
  show ?case by simp
next
  case (Cons x xs)
  show ?case
  proof (cases "0 \<le> rfind c xs")
    case True
    then have "nat (rfind c xs + 1 + 1) = Suc (nat (rfind c xs + 1))" by simp
    with True Cons.IH show ?thesis by (simp add: Let_def)
  next
    case False
    then have "c \<notin> set xs" using rfind_present [of c xs] by auto
    with False show ?thesis by (simp add: Let_def)
  qed
qed

lemma basename_no_sep: "CHR ''/'' \<notin> set (basename p)"
  by (simp add: basename_def rfind_after)

lemma basename_dir:
  "p = take (nat (rfind CHR ''/'' p + 1)) p @ basename p"
  by (simp add: basename_def)

lemma dir_ends_with_sep:
  "take (nat (rfind c p + 1)) p = [] \<or> last (take (nat (rfind c p + 1)) p) = c"
proof (cases "0 \<le> rfind c p")
  case True
  then have n: "nat (rfind c p + 1) = Suc (nat (rfind c p))" by simp
  have "nat (rfind c p) < length p"
    using rfind_range [of c p] True by simp
  then have "take (Suc (nat (rfind c p))) p = take (nat (rfind c p)) p @ [p ! nat (rfind c p)]"
    by (rule take_Suc_conv_app_nth)
  with n rfind_at [OF True] show ?thesis by simp
next
  case False
  then have "rfind c p = - 1" using rfind_range [of c p] by simp
  then show ?thesis by simp
qed

lemma splitext_append: "fst (splitext b) @ snd (splitext b) = b"
  by (simp add: splitext_def Let_def)

lemma splitext_ext:
  "snd (splitext b) = [] \<or>
   (hd (snd (splitext b)) = CHR ''.'' \<and> CHR ''.'' \<notin> set (tl (snd (splitext b))))"
proof (cases "snd (splitext b) = []")
  case True
  then show ?thesis by simp
next
  case False
  let ?d = "rfind CHR ''.'' b"
  from False have ext: "snd (splitext b) = drop (nat ?d) b" and d: "rfind CHR ''/'' b < ?d"
    by (simp_all add: splitext_def Let_def split: if_splits)
  have d0: "0 \<le> ?d" using d rfind_range [of "CHR ''/''" b] by simp
  have len: "nat ?d < length b" using rfind_range [of "CHR ''.''" b] d0 by simp
  have "hd (drop (nat ?d) b) = CHR ''.''"
    using rfind_at [OF d0] len by (simp add: hd_drop_conv_nth)
  moreover have "tl (drop (nat ?d) b) = drop (nat (?d + 1)) b"
    using d0 by (simp add: tl_drop drop_Suc nat_add_distrib)
  ultimately show ?thesis
    using rfind_after [of "CHR ''.''" b] ext by simp
qed

lemma splitext_no_ext:
  assumes sep: "CHR ''/'' \<notin> set b" and ext: "snd (splitext b) = []"
  shows "CHR ''.'' \<notin> set (dropWhile (\<lambda>ch. ch = CHR ''.'') b)"
proof (cases "CHR ''.'' \<in> set b")
  case False
  then show ?thesis using set_dropWhileD by fastforce
next
  case True
  let ?d = "rfind CHR ''.'' b"
  have s: "rfind CHR ''/'' b = - 1" using sep by (rule rfind_absent)
  have d0: "0 \<le> ?d" using True by (rule rfind_present)
  have len: "nat ?d < length b" using rfind_range [of "CHR ''.''" b] d0 by simp
  have "drop (nat ?d) b \<noteq> []" using len by simp
  with ext s d0 have dots: "\<not> list_ex (\<lambda>ch. ch \<noteq> CHR ''.'') (take (nat ?d) b)"
    by (simp add: splitext_def Let_def split: if_splits)
  have at: "b ! nat ?d = CHR ''.''" using d0 by (rule rfind_at)
  have split: "b = take (nat ?d) b @ CHR ''.'' # drop (Suc (nat ?d)) b"
    using len at by (metis id_take_nth_drop)
  have "dropWhile (\<lambda>ch. ch = CHR ''.'') b =
      dropWhile (\<lambda>ch. ch = CHR ''.'') (CHR ''.'' # drop (Suc (nat ?d)) b)"
    using dots by (subst split, subst dropWhile_append2) (auto simp: list_ex_iff)
  also have "\<dots> = dropWhile (\<lambda>ch. ch = CHR ''.'') (drop (nat (?d + 1)) b)"
    using d0 by (simp add: nat_add_distrib)
  finally have "set (dropWhile (\<lambda>ch. ch = CHR ''.'') b) \<subseteq> set (drop (nat (?d + 1)) b)"
    using set_dropWhileD by fastforce
  then show ?thesis using rfind_after [of "CHR ''.''" b] by blast
qed

lemma trial_title_no_ext:
  assumes "snd (splitext (basename p)) = []"
  shows "CHR ''.'' \<notin> set (dropWhile (\<lambda>ch. ch = CHR ''.'') (trial_title p))"
proof -
  have "trial_title p = basename p"
    using splitext_append [of "basename p"] assms by (simp add: trial_title_def)
  then show ?thesis
    using splitext_no_ext [OF basename_no_sep assms] by simp
qed

lemma trial_title_decomposition:
  "\<exists>dir ext. p = dir @ trial_title p @ ext \<and>
     (dir = [] \<or> last dir = CHR ''/'') \<and>
     CHR ''/'' \<notin> set (trial_title p @ ext) \<and>
     (ext = [] \<or> (hd ext = CHR ''.'' \<and> CHR ''.'' \<notin> set (tl ext))) \<and>
     (ext = [] \<longrightarrow> CHR ''.'' \<notin> set (dropWhile (\<lambda>ch. ch = CHR ''.'') (trial_title p)))"
proof (intro exI conjI)
  show "p = take (nat (rfind CHR ''/'' p + 1)) p @ trial_title p @ snd (splitext (basename p))"
    using basename_dir [of p] by (simp add: trial_title_def splitext_append)
  show "take (nat (rfind CHR ''/'' p + 1)) p = [] \<or>
      last (take (nat (rfind CHR ''/'' p + 1)) p) = CHR ''/''"
    by (rule dir_ends_with_sep)
  show "CHR ''/'' \<notin> set (trial_title p @ snd (splitext (basename p)))"
    by (simp only: trial_title_def splitext_append basename_no_sep not_False_eq_True)
  show "snd (splitext (basename p)) = [] \<or>
      (hd (snd (splitext (basename p))) = CHR ''.'' \<and>
       CHR ''.'' \<notin> set (tl (snd (splitext (basename p)))))"
    by (rule splitext_ext)
  show "snd (splitext (basename p)) = [] \<longrightarrow>
      CHR ''.'' \<notin> set (dropWhile (\<lambda>ch. ch = CHR ''.'') (trial_title p))"
    using trial_title_no_ext [of p] by blast
qed

lemma process_trials_append:
  "process_trials fs tp rt (pre @ post) st =
     process_trials fs tp rt post (process_trials fs tp rt pre st)"
  by (induction pre arbitrary: st) simp_all

lemma upto_from_Cons: "0 \<le> k \<Longrightarrow> [n..n + k] = n # [n + 1..n + 1 + k - 1]"
  by (subst upto_rec1) (simp_all add: add.commute add.left_commute)

section \<open>The renderers: properties\<close>

lemmas canvas_defs = new_canvas_def letter_def inch_def setFillColorRGB_def setStrokeColorRGB_def
  setFont_def rect_def drawString_def line_def Let_def

lemma overlay_marks: "create_page_number_overlay sw page_num tp rt = footer_band sw page_num tp rt"
  by (simp add: create_page_number_overlay_def footer_band_def canvas_defs)

lemma cover_marks:
  "create_cover_page sw title page_num tp rt =
     Text ((612 - sw title ''Helvetica-Bold'' 24) / 2) (792 / 2) title ''Helvetica-Bold'' 24 (0, 0, 0) #
     footer_band sw page_num tp rt"
  by (simp add: create_cover_page_def footer_band_def canvas_defs)

lemma run_reported:
  assumes "sound (fs main_pdf)"
  shows "reported (final (write_final dst output_path tp
           (process_trials fs tp rt trial_pdfs
             (fst (read_and_stamp fs tp rt main_pdf st0))))) =
         reported st0 @
         concat (map (\<lambda>t. if sound (fs t) then [] else [TrialPdfError (trial_title t)]) trial_pdfs) @
         (if dst output_path = WriteSucceeds then [] else [WriteError])"
  by (cases "dst output_path")
     (simp_all add: write_final_def process_trials_reported read_and_stamp_reported)

lemma run_returned:
  assumes "sound (fs main_pdf)"
  shows "returned (create_final_report fs dst main_pdf trial_pdfs output_path rt) =
     (if dst output_path = WriteSucceeds then Some output_path else None)"
  using assms
  by (cases "dst output_path") (simp_all add: run_unfold Let_def write_final_def)

section \<open>The claims\<close>

text \<open>
  Claim C1. For a main document with \<open>m\<close> countable pages and trials with countable page
  counts \<open>t1 .. tn\<close>, \<^verbatim>\<open>calculate_total_pages\<close> returns \<open>m + \<Sum>(ti + 1)\<close>, where a source
  that cannot be read contributes the count \<open>0\<close>; the function returns a total for every
  input (an unreadable source does not abort it).
\<close>

theorem calculate_total_pages_sum:
  "fst (calculate_total_pages fs main_pdf trial_pdfs) =
     (case fs main_pdf of Readable ps \<Rightarrow> int (length ps) | Unreadable \<Rightarrow> 0) +
     (\<Sum>t\<leftarrow>trial_pdfs. (case fs t of Readable ps \<Rightarrow> int (length ps) | Unreadable \<Rightarrow> 0) + 1)"
  by (simp only: total_as_sum fst_get_page_count)

text \<open>
  Claim C2. When the main document and every trial document are read without a failure,
  the pages in the writer carry the numbers \<open>1, 2, ..., total\<close> in the order of emission
  (the main pages, then for each trial in the caller's order its cover and its pages),
  every footer has the total of Phase 1, and the number of pages appended is that total.
\<close>

theorem successful_run_numbering:
  fixes fs dst main_pdf trial_pdfs output_path rt
  defines "r \<equiv> create_final_report fs dst main_pdf trial_pdfs output_path rt"
  assumes main: "sound (fs main_pdf)"
    and trials: "\<forall>t \<in> set trial_pdfs. sound (fs t)"
  shows "computed_total r = fst (calculate_total_pages fs main_pdf trial_pdfs) \<and>
         map (page_number \<circ> spec_of) (writer (final r)) = [1..computed_total r] \<and>
         map spec_of (writer (final r)) = map (footer (computed_total r) rt) [1..computed_total r] \<and>
         map slot_of (writer (final r)) =
           map Body (body (fs main_pdf)) @
           concat (map (\<lambda>t. CoverOf (trial_title t) # map Body (body (fs t))) trial_pdfs) \<and>
         int (length (writer (final r))) = computed_total r"
  unfolding r_def using sound_run_numbering [OF main trials] .

theorem successful_run_numbering_witness:
  "sound (example_fs ''/r/main.pdf'') \<and> sound (example_fs ''/r/t2.pdf'') \<and>
   computed_total (create_final_report example_fs example_dst ''/r/main.pdf''
     [''/r/t2.pdf'', ''/r/t2.pdf''] ''/r/out.pdf'' ''T'') = 6 \<and>
   map (page_number \<circ> spec_of) (writer (final (create_final_report example_fs example_dst
     ''/r/main.pdf'' [''/r/t2.pdf'', ''/r/t2.pdf''] ''/r/out.pdf'' ''T''))) = [1, 2, 3, 4, 5, 6] \<and>
   map slot_of (writer (final (create_final_report example_fs example_dst
     ''/r/main.pdf'' [''/r/t2.pdf'', ''/r/t2.pdf''] ''/r/out.pdf'' ''T''))) =
     [Body ''m1'', Body ''m2'', CoverOf ''t2'', Body ''a'', CoverOf ''t2'', Body ''a'']"
  using successful_run_numbering [where fs = example_fs and dst = example_dst
      and main_pdf = "''/r/main.pdf''" and trial_pdfs = "[''/r/t2.pdf'', ''/r/t2.pdf'']"
      and output_path = "''/r/out.pdf''" and rt = "''T''"]
  by (simp add: run_defs sound_def)

text \<open>
  Claim C3. A trial document that fails to open, or fails on one of its pages, does not
  end the run: the error is logged for that trial, the value returned depends on the
  write alone, and the output is laid out as for every run (the main pages, then for each
  trial in order its cover and the pages stamped before it failed), so the failed trial's
  cover stays and the later trials follow. In particular, for a main document of two
  pages, an unreadable first trial and a second trial of one page, the total is 5 and the
  writer holds the two main pages, the first trial's cover, the second trial's cover and
  its page, numbered 1 to 5.
\<close>

theorem trial_failure_is_local:
  fixes fs dst main_pdf trial_pdfs output_path rt t1 t2
  defines "r \<equiv> create_final_report fs dst main_pdf trial_pdfs output_path rt"
  defines "r2 \<equiv> create_final_report fs dst main_pdf [t1, t2] output_path rt"
  shows "(sound (fs main_pdf) \<and> t \<in> set trial_pdfs \<and> \<not> sound (fs t) \<longrightarrow>
            returned r = (if dst output_path = WriteSucceeds then Some output_path else None) \<and>
            TrialPdfError (trial_title t) \<in> set (reported (final r)) \<and>
            CoverOf (trial_title t) \<in> set (map slot_of (writer (final r))) \<and>
            map slot_of (writer (final r)) =
              map Body (body (fs main_pdf)) @
              concat (map (\<lambda>t. CoverOf (trial_title t) # map Body (body (fs t))) trial_pdfs)) \<and>
         (fs main_pdf = Readable [Page a, Page b] \<and> fs t1 = Unreadable \<and>
          fs t2 = Readable [Page c] \<longrightarrow>
            computed_total r2 = 5 \<and>
            writer (final r2) =
              [Stamped a (footer 5 rt 1), Stamped b (footer 5 rt 2),
               Cover (trial_title t1) (footer 5 rt 3),
               Cover (trial_title t2) (footer 5 rt 4), Stamped c (footer 5 rt 5)] \<and>
            TrialPdfError (trial_title t1) \<in> set (reported (final r2)))"
proof (intro conjI impI)
  assume h: "sound (fs main_pdf) \<and> t \<in> set trial_pdfs \<and> \<not> sound (fs t)"
  then have main: "sound (fs main_pdf)" and t: "t \<in> set trial_pdfs" and bad: "\<not> sound (fs t)"
    by simp_all
  show "returned r = (if dst output_path = WriteSucceeds then Some output_path else None)"
    unfolding r_def using main by (rule run_returned)
  show slots: "map slot_of (writer (final r)) =
      map Body (body (fs main_pdf)) @
      concat (map (\<lambda>t. CoverOf (trial_title t) # map Body (body (fs t))) trial_pdfs)"
    unfolding r_def using main by (rule run_slots)
  show "CoverOf (trial_title t) \<in> set (map slot_of (writer (final r)))"
    using t by (subst slots) auto
  show "TrialPdfError (trial_title t) \<in> set (reported (final r))"
    unfolding r_def using main t bad
    by (simp add: run_unfold Let_def run_reported) (rule disjI2, force)
next
  assume h: "fs main_pdf = Readable [Page a, Page b] \<and> fs t1 = Unreadable \<and>
    fs t2 = Readable [Page c]"
  then show "computed_total r2 = 5"
    unfolding r2_def
    by (simp add: create_final_report_def calculate_total_pages_def get_page_count_def
        process_main_def process_trial_def read_and_stamp_def write_final_def Let_def
        split: write_outcome.split)
  from h show "writer (final r2) =
      [Stamped a (footer 5 rt 1), Stamped b (footer 5 rt 2),
       Cover (trial_title t1) (footer 5 rt 3),
       Cover (trial_title t2) (footer 5 rt 4), Stamped c (footer 5 rt 5)]"
    unfolding r2_def
    by (simp add: create_final_report_def calculate_total_pages_def get_page_count_def
        process_main_def process_trial_def read_and_stamp_def write_final_def Let_def
        footer_def split: write_outcome.split)
  from h show "TrialPdfError (trial_title t1) \<in> set (reported (final r2))"
    unfolding r2_def
    by (simp add: create_final_report_def calculate_total_pages_def get_page_count_def
        process_main_def process_trial_def read_and_stamp_def write_final_def Let_def
        split: write_outcome.split)
qed

theorem trial_failure_is_local_witness:
  "sound (example_fs ''/r/main.pdf'') \<and> \<not> sound (example_fs ''/r/t3.v2.pdf'') \<and>
   example_fs ''/r/main.pdf'' = Readable [Page ''m1'', Page ''m2''] \<and>
   example_fs ''/r/t1.pdf'' = Unreadable \<and> example_fs ''/r/t2.pdf'' = Readable [Page ''a''] \<and>
   map slot_of (writer (final (create_final_report example_fs example_dst ''/r/main.pdf''
     [''/r/t3.v2.pdf'', ''/r/t2.pdf''] ''/r/out.pdf'' ''T''))) =
     [Body ''m1'', Body ''m2'', CoverOf ''t3.v2'', Body ''b'', CoverOf ''t2'', Body ''a''] \<and>
   returned (create_final_report example_fs example_dst ''/r/main.pdf''
     [''/r/t3.v2.pdf'', ''/r/t2.pdf''] ''/r/out.pdf'' ''T'') = Some ''/r/out.pdf'' \<and>
   create_final_report example_fs example_dst ''/r/main.pdf'' [''/r/t1.pdf'', ''/r/t2.pdf'']
     ''/r/out.pdf'' ''T'' =
     \<lparr>returned = Some ''/r/out.pdf'',
      destination = Written
        [Stamped ''m1'' \<lparr>page_number = 1, total_pages = 5, report_title = ''T''\<rparr>,
         Stamped ''m2'' \<lparr>page_number = 2, total_pages = 5, report_title = ''T''\<rparr>,
         Cover ''t1'' \<lparr>page_number = 3, total_pages = 5, report_title = ''T''\<rparr>,
         Cover ''t2'' \<lparr>page_number = 4, total_pages = 5, report_title = ''T''\<rparr>,
         Stamped ''a'' \<lparr>page_number = 5, total_pages = 5, report_title = ''T''\<rparr>],
      computed_total = 5,
      final = \<lparr>writer =
        [Stamped ''m1'' \<lparr>page_number = 1, total_pages = 5, report_title = ''T''\<rparr>,
         Stamped ''m2'' \<lparr>page_number = 2, total_pages = 5, report_title = ''T''\<rparr>,
         Cover ''t1'' \<lparr>page_number = 3, total_pages = 5, report_title = ''T''\<rparr>,
         Cover ''t2'' \<lparr>page_number = 4, total_pages = 5, report_title = ''T''\<rparr>,
         Stamped ''a'' \<lparr>page_number = 5, total_pages = 5, report_title = ''T''\<rparr>],
        current_page = 6,
        rendered =
        [\<lparr>page_number = 1, total_pages = 5, report_title = ''T''\<rparr>,
         \<lparr>page_number = 2, total_pages = 5, report_title = ''T''\<rparr>,
         \<lparr>page_number = 3, total_pages = 5, report_title = ''T''\<rparr>,
         \<lparr>page_number = 4, total_pages = 5, report_title = ''T''\<rparr>,
         \<lparr>page_number = 5, total_pages = 5, report_title = ''T''\<rparr>],
        reported = [PageCountError ''/r/t1.pdf'', TrialPdfError ''t1'']\<rparr>\<rparr>"
  using trial_failure_is_local [where fs = example_fs and dst = example_dst
      and main_pdf = "''/r/main.pdf''" and trial_pdfs = "[''/r/t3.v2.pdf'', ''/r/t2.pdf'']"
      and output_path = "''/r/out.pdf''" and rt = "''T''" and t = "''/r/t3.v2.pdf''"
      and ?t1.0 = "''/r/t1.pdf''" and ?t2.0 = "''/r/t2.pdf''" and a = "''m1''" and b = "''m2''"
      and c = "''a''"]
  by (simp add: run_defs sound_def)

text \<open>
  Claim C4. When the main document cannot be opened, or a page of it cannot be fetched
  or merged, \<^verbatim>\<open>create_final_report\<close> logs the error and returns \<open>None\<close>; the destination is
  never opened, whatever had been appended to the writer.
\<close>

theorem main_failure_is_fatal:
  fixes fs dst main_pdf trial_pdfs output_path rt
  defines "r \<equiv> create_final_report fs dst main_pdf trial_pdfs output_path rt"
  assumes "\<not> sound (fs main_pdf)"
  shows "returned r = None \<and> destination r = Untouched \<and> \<not> success_dialog has_gui r \<and>
         reported (final r) = snd (calculate_total_pages fs main_pdf trial_pdfs) @ [MainPdfError]"
  using assms unfolding r_def
  by (simp add: run_unfold Let_def success_dialog_def read_and_stamp_reported)

theorem main_failure_is_fatal_witness:
  "\<not> sound (example_fs ''/r/t3.v2.pdf'') \<and> \<not> sound (example_fs ''/r/t1.pdf'') \<and>
   returned (create_final_report example_fs example_dst ''/r/t3.v2.pdf'' [''/r/t2.pdf'']
     ''/r/out.pdf'' ''T'') = None \<and>
   destination (create_final_report example_fs example_dst ''/r/t3.v2.pdf'' [''/r/t2.pdf'']
     ''/r/out.pdf'' ''T'') = Untouched \<and>
   length (writer (final (create_final_report example_fs example_dst ''/r/t3.v2.pdf''
     [''/r/t2.pdf''] ''/r/out.pdf'' ''T''))) = 1 \<and>
   reported (final (create_final_report example_fs example_dst ''/r/t1.pdf'' [''/r/t2.pdf'']
     ''/r/out.pdf'' ''T'')) = [PageCountError ''/r/t1.pdf'', MainPdfError]"
  using main_failure_is_fatal [where fs = example_fs and dst = example_dst
      and main_pdf = "''/r/t3.v2.pdf''" and trial_pdfs = "[''/r/t2.pdf'']"
      and output_path = "''/r/out.pdf''" and rt = "''T''" and has_gui = True]
    main_failure_is_fatal [where fs = example_fs and dst = example_dst
      and main_pdf = "''/r/t1.pdf''" and trial_pdfs = "[''/r/t2.pdf'']"
      and output_path = "''/r/out.pdf''" and rt = "''T''" and has_gui = True]
  by (simp add: run_defs sound_def)

text \<open>
  Claim C5. For a trial document that is processed without a failure, the iteration of the
  trial loop appends exactly one cover immediately before the trial's pages (all of them),
  numbered with \<^verbatim>\<open>current_page\<close> as it was when the iteration began, the trial's pages
  carrying the numbers that follow; this is the iteration the loop runs for that trial
  wherever it stands in the list. The cover's title is
  \<^verbatim>\<open>splitext(basename(path))[0]\<close>: the path is a directory part (empty, or ending in the
  last \<^verbatim>\<open>/\<close>), the title, and an extension (the last dot and what follows it; empty only
  when the name has no dot after its leading dots), and nothing of the title is changed.
\<close>

theorem cover_precedes_trial:
  assumes "sound (fs p)"
  shows "(\<exists>new. writer (process_trial fs tp rt p st) = writer st @ new \<and>
            map slot_of new = CoverOf (trial_title p) # map Body (body (fs p)) \<and>
            map spec_of new =
              map (footer tp rt) [current_page st..current_page st + int (length (body (fs p)))]) \<and>
         int (length (body (fs p))) = fst (get_page_count fs p) \<and>
         reported (process_trial fs tp rt p st) = reported st \<and>
         process_trials fs tp rt (pre @ p # post) st =
           process_trials fs tp rt post (process_trial fs tp rt p (process_trials fs tp rt pre st)) \<and>
         trial_title p = fst (splitext (basename p)) \<and>
         (\<exists>dir ext. p = dir @ trial_title p @ ext \<and>
            (dir = [] \<or> last dir = CHR ''/'') \<and>
            CHR ''/'' \<notin> set (trial_title p @ ext) \<and>
            (ext = [] \<or> (hd ext = CHR ''.'' \<and> CHR ''.'' \<notin> set (tl ext))) \<and>
            (ext = [] \<longrightarrow>
               CHR ''.'' \<notin> set (dropWhile (\<lambda>ch. ch = CHR ''.'') (trial_title p))))"
proof -
  let ?n = "current_page st" and ?cs = "body (fs p)"
  let ?new = "Cover (trial_title p) (footer tp rt ?n) # numbered (?n + 1) tp rt ?cs"
  have specs: "map spec_of ?new = map (footer tp rt) [?n..?n + int (length ?cs)]"
  proof -
    have "map spec_of ?new =
        map (footer tp rt) (?n # [?n + 1..?n + 1 + int (length ?cs) - 1])"
      by (simp add: numbered_specs)
    also have "?n # [?n + 1..?n + 1 + int (length ?cs) - 1] = [?n..?n + int (length ?cs)]"
      by (rule upto_from_Cons [symmetric]) simp
    finally show ?thesis .
  qed
  have a: "\<exists>new. writer (process_trial fs tp rt p st) = writer st @ new \<and>
            map slot_of new = CoverOf (trial_title p) # map Body ?cs \<and>
            map spec_of new = map (footer tp rt) [?n..?n + int (length ?cs)]"
  proof (intro exI conjI)
    show "writer (process_trial fs tp rt p st) = writer st @ ?new"
      by (rule process_trial_writer)
    show "map slot_of ?new = CoverOf (trial_title p) # map Body ?cs"
      by (simp add: numbered_slots)
    show "map spec_of ?new = map (footer tp rt) [?n..?n + int (length ?cs)]"
      by (rule specs)
  qed
  have b: "int (length ?cs) = fst (get_page_count fs p)"
    using count_sound [of fs p] assms by simp
  have c: "reported (process_trial fs tp rt p st) = reported st"
    using assms by (simp add: process_trial_reported)
  have d: "process_trials fs tp rt (pre @ p # post) st =
      process_trials fs tp rt post (process_trial fs tp rt p (process_trials fs tp rt pre st))"
    by (simp add: process_trials_append)
  have e: "trial_title p = fst (splitext (basename p))"
    by (simp add: trial_title_def)
  show ?thesis
    by (rule conjI [OF a conjI [OF b conjI [OF c conjI [OF d conjI [OF e trial_title_decomposition]]]]])
qed

theorem cover_precedes_trial_witness:
  "sound (example_fs ''/r/t2.pdf'') \<and>
   writer (process_trial example_fs 9 ''T'' ''/r/t2.pdf''
     \<lparr>writer = [], current_page = 4, rendered = [], reported = []\<rparr>) =
     [Cover ''t2'' \<lparr>page_number = 4, total_pages = 9, report_title = ''T''\<rparr>,
      Stamped ''a'' \<lparr>page_number = 5, total_pages = 9, report_title = ''T''\<rparr>] \<and>
   trial_title ''/data/trial reports/run 7.final.pdf'' = ''run 7.final''"
  using cover_precedes_trial [of example_fs "''/r/t2.pdf''" 9 "''T''"
      "\<lparr>writer = [], current_page = 4, rendered = [], reported = []\<rparr>" "[]" "[]"]
  by (simp add: run_defs sound_def)

text \<open>
  Claim C6. For every page number, total and report title, the marks
  \<^verbatim>\<open>create_cover_page\<close> paints after the centred title are exactly the marks
  \<^verbatim>\<open>create_page_number_overlay\<close> paints, with the same coordinates, fonts and colours:
  the white band, the report title on the left when it is not empty, the centred page
  text and the separator line.
\<close>

theorem cover_footer_is_overlay:
  "create_cover_page sw title page_num tp rt =
     Text ((612 - sw title ''Helvetica-Bold'' 24) / 2) (792 / 2) title ''Helvetica-Bold'' 24 (0, 0, 0) #
     create_page_number_overlay sw page_num tp rt \<and>
   create_page_number_overlay sw page_num tp rt = footer_band sw page_num tp rt"
  by (simp only: cover_marks overlay_marks simp_thms)

text \<open>
  Claim C7. Every footer specification constructed during a run (for main pages, covers
  and trial pages, whether or not the page reached the writer, whatever sources are
  unreadable) has \<open>1 \<le> page_number \<le> total_pages\<close>, and its \<open>total_pages\<close> is the value
  \<^verbatim>\<open>calculate_total_pages\<close> computed in Phase 1.
\<close>

theorem footer_specs_in_range:
  fixes fs dst main_pdf trial_pdfs output_path rt
  defines "r \<equiv> create_final_report fs dst main_pdf trial_pdfs output_path rt"
  shows "computed_total r = fst (calculate_total_pages fs main_pdf trial_pdfs) \<and>
         (\<forall>s \<in> set (rendered (final r)).
            1 \<le> page_number s \<and> page_number s \<le> total_pages s \<and>
            total_pages s = computed_total r)"
  unfolding r_def using run_rendered [of _ fs dst main_pdf trial_pdfs output_path rt]
  by (auto simp: run_total)

theorem footer_specs_in_range_witness:
  "\<lparr>page_number = 8, total_pages = 9, report_title = ''T''\<rparr> \<in>
     set (rendered (final (create_final_report example_fs example_dst ''/r/main.pdf''
       [''/r/t1.pdf'', ''/r/t2.pdf'', ''/r/t3.v2.pdf''] ''/r/out.pdf'' ''T''))) \<and>
   computed_total (create_final_report example_fs example_dst ''/r/main.pdf''
       [''/r/t1.pdf'', ''/r/t2.pdf'', ''/r/t3.v2.pdf''] ''/r/out.pdf'' ''T'') = 9 \<and>
   length (rendered (final (create_final_report example_fs example_dst ''/r/main.pdf''
       [''/r/t1.pdf'', ''/r/t2.pdf'', ''/r/t3.v2.pdf''] ''/r/out.pdf'' ''T''))) = 8"
  using footer_specs_in_range [of example_fs example_dst "''/r/main.pdf''"
      "[''/r/t1.pdf'', ''/r/t2.pdf'', ''/r/t3.v2.pdf'']" "''/r/out.pdf''" "''T''"]
  by (simp add: run_defs)

text \<open>
  Claim C8. When writing the output fails (\<^verbatim>\<open>open\<close> or \<^verbatim>\<open>writer.write\<close> raises),
  \<^verbatim>\<open>create_final_report\<close> returns \<open>None\<close> and never the output path, the caller's success
  dialog is not shown, and the destination does not hold the composed document; when the
  write was reached (the main document was processed), the failure is logged as the last
  error and the destination is untouched or holds a partial file.
\<close>

theorem write_failure_is_reported:
  fixes fs dst main_pdf trial_pdfs output_path rt
  defines "r \<equiv> create_final_report fs dst main_pdf trial_pdfs output_path rt"
  assumes "dst output_path \<noteq> WriteSucceeds"
  shows "returned r = None \<and> \<not> success_dialog has_gui r \<and>
         (\<forall>pages. destination r \<noteq> Written pages) \<and>
         (sound (fs main_pdf) \<longrightarrow>
            (\<exists>es. reported (final r) = es @ [WriteError]) \<and>
            destination r = (if dst output_path = OpenFails then Untouched else Partial))"
  using assms unfolding r_def
  by (cases "dst output_path")
     (simp_all add: run_unfold Let_def success_dialog_def write_final_def)

theorem write_failure_is_reported_witness:
  "example_dst ''/full/out.pdf'' \<noteq> WriteSucceeds \<and> sound (example_fs ''/r/main.pdf'') \<and>
   returned (create_final_report example_fs example_dst ''/r/main.pdf'' [''/r/t2.pdf'']
     ''/full/out.pdf'' ''T'') = None \<and>
   destination (create_final_report example_fs example_dst ''/r/main.pdf'' [''/r/t2.pdf'']
     ''/full/out.pdf'' ''T'') = Partial \<and>
   reported (final (create_final_report example_fs example_dst ''/r/main.pdf'' [''/r/t2.pdf'']
     ''/full/out.pdf'' ''T'')) = [WriteError] \<and>
   destination (create_final_report example_fs example_dst ''/r/main.pdf'' [''/r/t2.pdf'']
     ''/ro/out.pdf'' ''T'') = Untouched"
  using write_failure_is_reported [where fs = example_fs and dst = example_dst
      and main_pdf = "''/r/main.pdf''" and trial_pdfs = "[''/r/t2.pdf'']"
      and output_path = "''/full/out.pdf''" and rt = "''T''" and has_gui = True]
  by (simp add: run_defs sound_def)

text \<open>
  Claim C9. With an empty trial list and a main document that is read without a failure,
  the writer holds exactly the main document's pages, in order and with no cover, each
  stamped with its number and with the main document's own page count as the total;
  nothing is logged, and when the destination can be written the function returns the
  output path and the destination holds these pages.
\<close>

theorem empty_trial_list:
  fixes fs dst main_pdf output_path rt
  defines "r \<equiv> create_final_report fs dst main_pdf [] output_path rt"
  assumes "sound (fs main_pdf)"
  shows "computed_total r = int (length (body (fs main_pdf))) \<and>
         int (length (body (fs main_pdf))) = fst (get_page_count fs main_pdf) \<and>
         map slot_of (writer (final r)) = map Body (body (fs main_pdf)) \<and>
         map spec_of (writer (final r)) =
           map (footer (int (length (body (fs main_pdf)))) rt) [1..int (length (body (fs main_pdf)))] \<and>
         (dst output_path = WriteSucceeds \<longrightarrow>
            returned r = Some output_path \<and> destination r = Written (writer (final r)) \<and>
            reported (final r) = [])"
proof -
  have cnt: "fst (get_page_count fs main_pdf) = int (length (body (fs main_pdf)))"
    using count_sound [of fs main_pdf] assms(2) by simp
  have tp: "fst (calculate_total_pages fs main_pdf []) = int (length (body (fs main_pdf)))"
    using total_as_sum [of fs main_pdf "[]"] cnt by simp
  have all: "\<forall>t \<in> set []. sound (fs t)" by simp
  have es: "snd (calculate_total_pages fs main_pdf []) = []"
    using assms(2)
    by (simp add: calculate_total_pages_def get_page_count_def sound_def split: pdf_file.splits)
  have w: "dst output_path = WriteSucceeds \<longrightarrow>
            returned r = Some output_path \<and> destination r = Written (writer (final r)) \<and>
            reported (final r) = []"
    using assms(2) es unfolding r_def
    by (simp add: run_unfold Let_def write_final_def read_and_stamp_reported)
  show ?thesis
    using sound_run_numbering [OF assms(2) all, of dst output_path rt] tp cnt w
    unfolding r_def by simp
qed

theorem empty_trial_list_witness:
  "sound (example_fs ''/r/main.pdf'') \<and> example_dst ''/r/out.pdf'' = WriteSucceeds \<and>
   create_final_report example_fs example_dst ''/r/main.pdf'' [] ''/r/out.pdf'' ''T'' =
     \<lparr>returned = Some ''/r/out.pdf'',
      destination = Written
        [Stamped ''m1'' \<lparr>page_number = 1, total_pages = 2, report_title = ''T''\<rparr>,
         Stamped ''m2'' \<lparr>page_number = 2, total_pages = 2, report_title = ''T''\<rparr>],
      computed_total = 2,
      final = \<lparr>writer =
        [Stamped ''m1'' \<lparr>page_number = 1, total_pages = 2, report_title = ''T''\<rparr>,
         Stamped ''m2'' \<lparr>page_number = 2, total_pages = 2, report_title = ''T''\<rparr>],
        current_page = 3,
        rendered =
        [\<lparr>page_number = 1, total_pages = 2, report_title = ''T''\<rparr>,
         \<lparr>page_number = 2, total_pages = 2, report_title = ''T''\<rparr>],
        reported = []\<rparr>\<rparr>"
  using empty_trial_list [where fs = example_fs and dst = example_dst
      and main_pdf = "''/r/main.pdf''" and output_path = "''/r/out.pdf''" and rt = "''T''"]
  by (simp add: run_defs sound_def)

text \<open>
  Claim C10. On every path of every run, also after a trial failed, \<^verbatim>\<open>current_page\<close> is
  one more than the number of pages appended to the writer: the property holds initially,
  each loop keeps it from whatever state it starts in, and it holds in the state in which
  the function returns. The numbers stamped on the appended pages are therefore
  \<open>1, 2, ...\<close> without a gap, whatever failed. Appending a page and incrementing the
  counter are one step here: between \<^verbatim>\<open>writer.add_page\<close> and \<^verbatim>\<open>current_page += 1\<close> the
  source only logs.
\<close>

theorem counter_tracks_writer:
  fixes fs dst main_pdf trial_pdfs output_path rt
  defines "r \<equiv> create_final_report fs dst main_pdf trial_pdfs output_path rt"
  shows "(counter_ok st \<longrightarrow>
            counter_ok (fst (stamp_pages tp rt' ps st)) \<and>
            counter_ok (process_trial fs' tp rt' p st) \<and>
            counter_ok (process_trials fs' tp rt' ts st)) \<and>
         counter_ok \<lparr>writer = [], current_page = 1, rendered = [], reported = es\<rparr> \<and>
         counter_ok (final r) \<and>
         map (page_number \<circ> spec_of) (writer (final r)) = [1..int (length (writer (final r)))]"
proof -
  have "numbered_ok (fst (calculate_total_pages fs main_pdf trial_pdfs)) rt (final r)"
    unfolding r_def by (rule run_numbered_ok)
  then have "counter_ok (final r)"
    and "map (page_number \<circ> spec_of) (writer (final r)) = [1..int (length (writer (final r)))]"
    by (rule numbered_ok_counter, rule numbered_ok_numbers)
  moreover have "counter_ok \<lparr>writer = [], current_page = 1, rendered = [], reported = es\<rparr>"
    by (simp add: counter_ok_def)
  ultimately show ?thesis
    by (simp add: stamp_pages_counter_ok process_trial_counter_ok process_trials_counter_ok)
qed

theorem counter_tracks_writer_witness:
  "counter_ok \<lparr>writer = [], current_page = 1, rendered = [], reported = []\<rparr> \<and>
   counter_ok (process_trial example_fs 9 ''T'' ''/r/t3.v2.pdf''
     \<lparr>writer = [], current_page = 1, rendered = [], reported = []\<rparr>) \<and>
   current_page (final (create_final_report example_fs example_dst ''/r/main.pdf''
     [''/r/t1.pdf'', ''/r/t2.pdf'', ''/r/t3.v2.pdf''] ''/r/out.pdf'' ''T'')) = 8 \<and>
   map (page_number \<circ> spec_of) (writer (final (create_final_report example_fs example_dst
     ''/r/main.pdf'' [''/r/t1.pdf'', ''/r/t2.pdf'', ''/r/t3.v2.pdf''] ''/r/out.pdf'' ''T''))) =
     [1, 2, 3, 4, 5, 6, 7]"
  using counter_tracks_writer [where st = "\<lparr>writer = [], current_page = 1, rendered = [], reported = []\<rparr>"
      and tp = 9 and rt' = "''T''" and ps = "[]" and fs' = example_fs and p = "''/r/t3.v2.pdf''"
      and ts = "[]" and es = "[]" and fs = example_fs and dst = example_dst
      and main_pdf = "''/r/main.pdf''"
      and trial_pdfs = "[''/r/t1.pdf'', ''/r/t2.pdf'', ''/r/t3.v2.pdf'']"
      and output_path = "''/r/out.pdf''" and rt = "''T''"]
  by (simp add: run_defs counter_ok_def)

end
